theory Spec2Isabelle
  imports Complex_Main "HOL-Library.Sublist"
begin

section \<open>Band plan generation (hurdle2/generate\_band\_plan.py)\<close>

text \<open>
  The generator places signals on a grid of frequency bins by rejection sampling.
  Python integers are \<open>int\<close>. Python floats are idealised as exact rationals
  (\<open>rat\<close>): every finite float is a rational, but the arithmetic of the model does
  not round, underflow or overflow, as binary64 does. The program is read as Python 3:
  \<open>/\<close> is true division. Exceptions are values of \<open>error\<close>, returned as \<open>Inl\<close>.

  Two places of the program depend on binary64. The grid of lines 90 to 94: its
  values differ in exact arithmetic whenever \<open>channel_bandwidth \<noteq> 0\<close>, while in binary64
  they are all \<open>0.0\<close> when \<open>bin_bandwidth\<close> underflows (\<open>channel_bandwidth = 5e-324\<close>). And
  \<open>random.uniform\<close> of line 117: in exact arithmetic its value lies between its bounds,
  while in binary64 it is \<open>inf\<close> when the difference of the bounds overflows. The
  candidate generator and the loop take the grid lists as parameters, so a statement
  about them with given lists covers the lists that binary64 produces.
\<close>

datatype error = ZeroDivisionError | ValueError | IndexError

subsection \<open>The random module\<close>

text \<open>
  The library generator is an oracle: a tape of raw draws and the position of the next
  one. Each library call (\<open>randint\<close>, \<open>uniform\<close>, \<open>choice\<close>) reads one raw draw and
  advances the cursor. \<open>randbelow n\<close> reduces the raw draw into \<open>[0, n)\<close>, so every
  value the library can return is returned for some tape; \<open>random_unit\<close> is a multiple
  of \<open>2^-53\<close> in \<open>[0, 1)\<close>.
\<close>

record rng =
  tape :: "nat \<Rightarrow> nat"
  cursor :: nat

definition next_raw :: "rng \<Rightarrow> nat \<times> rng" where
  "next_raw g = (tape g (cursor g), g\<lparr>cursor := Suc (cursor g)\<rparr>)"

definition randbelow :: "nat \<Rightarrow> rng \<Rightarrow> nat \<times> rng" where
  "randbelow n g = (case next_raw g of (r, g') \<Rightarrow> (r mod n, g'))"

definition randint :: "int \<Rightarrow> int \<Rightarrow> rng \<Rightarrow> error + int \<times> rng" where
  "randint a b g =
     (if b < a then Inl ValueError
      else case randbelow (nat (b - a + 1)) g of (k, g') \<Rightarrow> Inr (a + int k, g'))"

definition random_unit :: "rng \<Rightarrow> rat \<times> rng" where
  "random_unit g = (case next_raw g of (r, g') \<Rightarrow> (of_nat (r mod 2 ^ 53) / 2 ^ 53, g'))"

definition uniform :: "rat \<Rightarrow> rat \<Rightarrow> rng \<Rightarrow> rat \<times> rng" where
  \<comment> \<open>\<open>a + (b - a) * random()\<close>, without the rounding and the overflow of binary64\<close>
  "uniform a b g = (case random_unit g of (u, g') \<Rightarrow> (a + (b - a) * u, g'))"

definition choice :: "'a list \<Rightarrow> rng \<Rightarrow> error + 'a \<times> rng" where
  "choice seq g =
     (if seq = [] then Inl IndexError
      else case randbelow (length seq) g of (k, g') \<Rightarrow> Inr (seq ! k, g'))"

text \<open>
  \<open>random.seed(instance_seed)\<close>: a seed fixes the tape through the library's generator
  \<open>prng\<close>; \<open>None\<close> takes the tape from the operating system, \<open>os_entropy\<close>.
\<close>

definition seed :: "('s \<Rightarrow> nat \<Rightarrow> nat) \<Rightarrow> (nat \<Rightarrow> nat) \<Rightarrow> 's option \<Rightarrow> rng" where
  "seed prng os_entropy instance_seed =
     \<lparr>tape = (case instance_seed of None \<Rightarrow> os_entropy | Some s \<Rightarrow> prng s), cursor = 0\<rparr>"

subsection \<open>Python lists\<close>

definition py_range :: "int \<Rightarrow> int list" where
  "py_range n = [0..n - 1]"

definition slice_index :: "nat \<Rightarrow> int \<Rightarrow> nat" where
  \<comment> \<open>a slice bound: negative counts from the end, then clamped to \<open>[0, len]\<close>\<close>
  "slice_index len i = (if i < 0 then nat (max (i + int len) 0) else min (nat i) len)"

definition py_slice :: "'a list \<Rightarrow> int \<Rightarrow> int \<Rightarrow> 'a list" where
  "py_slice xs start stop =
     (let lo = slice_index (length xs) start; hi = slice_index (length xs) stop
      in take (hi - lo) (drop lo xs))"

fun find_index :: "'a list \<Rightarrow> 'a \<Rightarrow> nat option" where
  "find_index [] v = None"
| "find_index (x # xs) v = (if x = v then Some 0 else map_option Suc (find_index xs v))"

definition py_index :: "'a list \<Rightarrow> 'a \<Rightarrow> error + int" where
  \<comment> \<open>\<open>list.index\<close>: the first position holding an equal value\<close>
  "py_index xs v = (case find_index xs v of None \<Rightarrow> Inl ValueError | Some i \<Rightarrow> Inr (int i))"

subsection \<open>Signals and band plans\<close>

text \<open>
  A signal is a dictionary; its key \<open>'n_bins'\<close> is the field \<open>sig_n_bins\<close>. A
  candidate has no \<open>modulation_type\<close> yet. The keys \<open>'n_bins'\<close>, \<open>'n_signals'\<close>
  and \<open>'signals'\<close> of the plan are the fields \<open>bp_n_bins\<close>, \<open>bp_n_signals\<close> and
  \<open>bp_signals\<close>.

  Lines 176 to 178 replace each set of bins by \<open>list(a_set)\<close>, which keeps the
  elements and lists them in the order of the hash table. That order is not fixed by
  the program, so the plan of the model keeps the sets: a statement about the sorted
  list of bins is a statement about \<open>sorted_list_of_set\<close>.
\<close>

record candidate =
  sig_n_bins :: int
  snr :: rat
  center_freq :: rat
  occupied_bins :: "int set"
  guard_bins :: "int set"

record signal = candidate +
  modulation_type :: string

record band_plan =
  freq_span :: rat
  bp_n_bins :: int
  bp_n_signals :: int
  bp_signals :: "signal list"

subsection \<open>Grid\<close>

text \<open>
  Lines 91 to 94 in exact arithmetic. \<open>bin_bandwidth\<close> is a parameter here, as it is a
  variable there.
\<close>

definition bin_edges_of :: "rat \<Rightarrow> rat \<Rightarrow> int \<Rightarrow> rat list" where
  "bin_edges_of channel_bandwidth bin_bandwidth n_bins =
     map (\<lambda>i. of_int i * bin_bandwidth - channel_bandwidth / 2) (py_range (n_bins + 1))"

definition bin_centers_of :: "rat \<Rightarrow> rat \<Rightarrow> int \<Rightarrow> rat list" where
  "bin_centers_of channel_bandwidth bin_bandwidth n_bins =
     map (\<lambda>i. of_int i * bin_bandwidth + bin_bandwidth / 2 - channel_bandwidth / 2)
       (py_range n_bins)"

subsection \<open>One candidate (lines 111 to 157)\<close>

definition span_bins :: "int \<Rightarrow> int \<Rightarrow> int \<Rightarrow> int set" where
  \<comment> \<open>\<open>set(ind - num_invalid + x for x in range(0, width))\<close>\<close>
  "span_bins ind num_invalid width = set (map (\<lambda>x. ind - num_invalid + x) (py_range width))"

definition guard_of :: "int \<Rightarrow> int set \<Rightarrow> int set \<Rightarrow> error + int set" where
  \<comment> \<open>\<open>min\<close> and \<open>max\<close> of an empty set raise ValueError\<close>
  "guard_of n_bins valid_bins occupied =
     (if occupied = {} then Inl ValueError
      else Inr ({(Min occupied - 1) mod n_bins, (Max occupied + 1) mod n_bins} \<inter> valid_bins))"

text \<open>
  The two branches of the parity test run the same statements, on \<open>bin_edges\<close> for
  an even width and on \<open>bin_centers\<close> for an odd one: \<open>grid\<close> below is that list. In
  both branches the slice ends at \<open>n_bins - num_invalid\<close>, although \<open>bin_edges\<close> has
  one entry more than \<open>bin_centers\<close>. For a width of at least 1, which is all that
  \<open>randint\<close> returns, \<open>int(width / 2)\<close> is \<open>width div 2\<close>. Python's \<open>%\<close> on integers and
  \<open>mod\<close> on \<open>int\<close> agree: both take the sign of the divisor. The loop runs only for
  \<open>n_bins \<noteq> 0\<close>, line 90 having divided by \<open>n_bins\<close>.
\<close>

definition valid_candidates :: "int \<Rightarrow> 'a list \<Rightarrow> int \<Rightarrow> 'a list" where
  \<comment> \<open>\<open>valid_edges\<close> (line 126) and \<open>valid_centers\<close> (line 140)\<close>
  "valid_candidates n_bins grid width =
     (let num_invalid = width div 2 in py_slice grid num_invalid (n_bins - num_invalid))"

definition place_center ::
  "int \<Rightarrow> rat list \<Rightarrow> int \<Rightarrow> rng \<Rightarrow> error + (rat \<times> int set) \<times> rng" where
  "place_center n_bins grid width g =
     (case choice (valid_candidates n_bins grid width) g of
        Inl e \<Rightarrow> Inl e
      | Inr (center, g') \<Rightarrow>
          (case py_index grid center of
             Inl e \<Rightarrow> Inl e
           | Inr ind \<Rightarrow> Inr ((center, span_bins ind (width div 2) width), g')))"

definition gen_candidate ::
  "int \<Rightarrow> rat list \<Rightarrow> rat list \<Rightarrow> int set \<Rightarrow> rat \<Rightarrow> rat \<Rightarrow> int \<Rightarrow> rng
     \<Rightarrow> error + candidate \<times> rng" where
  "gen_candidate n_bins bin_edges bin_centers valid_bins min_snr_db max_snr_db
       max_signal_bins g =
     (case randint 1 max_signal_bins g of
        Inl e \<Rightarrow> Inl e
      | Inr (width, g1) \<Rightarrow>
          (case uniform min_snr_db max_snr_db g1 of
             (snr_v, g2) \<Rightarrow>
               (case (if width mod 2 = 0 then place_center n_bins bin_edges width g2
                      else place_center n_bins bin_centers width g2) of
                  Inl e \<Rightarrow> Inl e
                | Inr ((center, occupied), g3) \<Rightarrow>
                    (case guard_of n_bins valid_bins occupied of
                       Inl e \<Rightarrow> Inl e
                     | Inr guard \<Rightarrow>
                         Inr (\<lparr>sig_n_bins = width, snr = snr_v, center_freq = center,
                               occupied_bins = occupied, guard_bins = guard\<rparr>, g3)))))"

subsection \<open>The collision check and the placement loop (lines 109 to 173)\<close>

definition overlaps :: "int set \<Rightarrow> signal list \<Rightarrow> bool" where
  "overlaps occupied signals =
     list_ex (\<lambda>existing. occupied \<inter> (occupied_bins existing \<union> guard_bins existing) \<noteq> {})
       signals"

definition add_modulation :: "candidate \<Rightarrow> string \<Rightarrow> signal" where
  \<comment> \<open>\<open>signal['modulation_type'] = ...\<close> on the candidate's dictionary\<close>
  "add_modulation c m =
     \<lparr>sig_n_bins = sig_n_bins c, snr = snr c, center_freq = center_freq c,
      occupied_bins = occupied_bins c, guard_bins = guard_bins c, modulation_type = m\<rparr>"

definition attempt ::
  "int \<Rightarrow> rat list \<Rightarrow> rat list \<Rightarrow> int set \<Rightarrow> rat \<Rightarrow> rat \<Rightarrow> string list \<Rightarrow> int
     \<Rightarrow> signal list \<Rightarrow> rng \<Rightarrow> error + signal list \<times> rng" where
  \<comment> \<open>one loop body after \<open>tries += 1\<close>; \<open>continue\<close> returns the list unchanged\<close>
  "attempt n_bins bin_edges bin_centers valid_bins min_snr_db max_snr_db signal_types
       max_signal_bins signals g =
     (case gen_candidate n_bins bin_edges bin_centers valid_bins min_snr_db max_snr_db
             max_signal_bins g of
        Inl e \<Rightarrow> Inl e
      | Inr (c, g') \<Rightarrow>
          if overlaps (occupied_bins c) signals then Inr (signals, g')
          else (case choice signal_types g' of
                  Inl e \<Rightarrow> Inl e
                | Inr (m, g'') \<Rightarrow>
                    Inr (signals @ [add_modulation c m], g'')))"

text \<open>
  The \<open>while\<close> loop of line 109 on the state \<open>signals\<close>, \<open>tries\<close> and the generator.
  \<open>body\<close> is the loop body: \<open>attempt\<close> with the parameters of the call. The loop
  returns its final state; an exception of the body ends it.
\<close>

function placement_loop ::
  "(signal list \<Rightarrow> rng \<Rightarrow> error + signal list \<times> rng) \<Rightarrow> int \<Rightarrow> int
     \<Rightarrow> signal list \<Rightarrow> int \<Rightarrow> rng \<Rightarrow> error + signal list \<times> int \<times> rng" where
  "placement_loop body n_signals max_tries signals tries g =
     (if int (length signals) < n_signals \<and> tries < max_tries then
        (case body signals g of
           Inl e \<Rightarrow> Inl e
         | Inr (signals', g') \<Rightarrow>
             placement_loop body n_signals max_tries signals' (tries + 1) g')
      else Inr (signals, tries, g))"
  by pat_completeness auto
termination
  by (relation "measure (\<lambda>(body, n_signals, max_tries, signals, tries, g).
        nat (max_tries - tries))") auto

declare placement_loop.simps [simp del]

text \<open>
  The same loop with a budget of \<open>k\<close> iterations: \<open>None\<close> when the loop condition still
  holds after \<open>k\<close> runs of the body. It serves to count iterations.
\<close>

fun loop_within ::
  "nat \<Rightarrow> (signal list \<Rightarrow> rng \<Rightarrow> error + signal list \<times> rng) \<Rightarrow> int \<Rightarrow> int
     \<Rightarrow> signal list \<Rightarrow> int \<Rightarrow> rng \<Rightarrow> (error + signal list \<times> int \<times> rng) option" where
  "loop_within 0 body n_signals max_tries signals tries g =
     (if int (length signals) < n_signals \<and> tries < max_tries then None
      else Some (Inr (signals, tries, g)))"
| "loop_within (Suc k) body n_signals max_tries signals tries g =
     (if int (length signals) < n_signals \<and> tries < max_tries then
        (case body signals g of
           Inl e \<Rightarrow> Some (Inl e)
         | Inr (signals', g') \<Rightarrow>
             loop_within k body n_signals max_tries signals' (tries + 1) g')
      else Some (Inr (signals, tries, g)))"

subsection \<open>Plan assembly (lines 187 to 194)\<close>

definition generate_band_plan ::
  "('s \<Rightarrow> nat \<Rightarrow> nat) \<Rightarrow> (nat \<Rightarrow> nat) \<Rightarrow> rat \<Rightarrow> int \<Rightarrow> int \<Rightarrow> rat \<Rightarrow> rat \<Rightarrow> string list
     \<Rightarrow> 's option \<Rightarrow> int \<Rightarrow> int \<Rightarrow> error + band_plan" where
  "generate_band_plan prng os_entropy channel_bandwidth n_bins n_signals min_snr_db
       max_snr_db signal_types instance_seed max_signal_bins max_tries =
     (if n_bins = 0 then Inl ZeroDivisionError
      else
        let bin_bandwidth = channel_bandwidth / of_int n_bins;
            bin_edges = bin_edges_of channel_bandwidth bin_bandwidth n_bins;
            bin_centers = bin_centers_of channel_bandwidth bin_bandwidth n_bins;
            g0 = seed prng os_entropy instance_seed;
            valid_bins = set (py_range n_bins)
        in case placement_loop
                  (attempt n_bins bin_edges bin_centers valid_bins min_snr_db max_snr_db
                     signal_types max_signal_bins)
                  n_signals max_tries [] 0 g0 of
             Inl e \<Rightarrow> Inl e
           | Inr (signals, tries, g) \<Rightarrow>
               Inr \<lparr>freq_span = channel_bandwidth, bp_n_bins = n_bins,
                    bp_n_signals = int (length signals),
                    bp_signals = signals\<rparr>)"

section \<open>Predicates of the specification\<close>

text \<open>
  A signal is well placed on a grid of \<open>n_bins\<close> bins when its occupied bins are a run
  of \<open>sig_n_bins\<close> consecutive indices inside \<open>[0, n_bins)\<close> and its guard bins are the
  two neighbours of that run, taken modulo \<open>n_bins\<close>.
\<close>

definition well_placed :: "int \<Rightarrow> 'a candidate_scheme \<Rightarrow> bool" where
  "well_placed n_bins s =
     (\<exists>lo. 0 \<le> lo \<and> 1 \<le> sig_n_bins s \<and> lo + sig_n_bins s \<le> n_bins
        \<and> occupied_bins s = {lo ..< lo + sig_n_bins s}
        \<and> guard_bins s = {(lo - 1) mod n_bins, (lo + sig_n_bins s) mod n_bins} \<inter> {0 ..< n_bins})"

section \<open>Running the model on concrete inputs\<close>

text \<open>The defining equations that a run on concrete arguments unfolds.\<close>

lemmas run_defs = generate_band_plan_def seed_def attempt_def gen_candidate_def place_center_def
  valid_candidates_def guard_of_def span_bins_def overlaps_def py_range_def py_slice_def
  slice_index_def py_index_def bin_edges_of_def bin_centers_of_def choice_def uniform_def
  random_unit_def randint_def randbelow_def next_raw_def add_modulation_def upto.simps Let_def
  placement_loop.simps

section \<open>Properties of the library functions\<close>

lemma randint_Inr:
  assumes "randint 1 m g = Inr (w, g')"
  shows "1 \<le> w \<and> w \<le> m \<and> tape g' = tape g \<and> cursor g' = Suc (cursor g)"
proof -
  have m: "1 \<le> m" using assms by (auto simp: randint_def split: if_splits)
  have "tape g (cursor g) mod nat m < nat m" using m by simp
  then have "int (tape g (cursor g) mod nat m) < m" using m by linarith
  then show ?thesis using assms m
    by (auto simp: randint_def randbelow_def next_raw_def split: if_splits)
qed

lemma random_unit_range:
  assumes "random_unit g = (u, g')"
  shows "0 \<le> u \<and> u < 1 \<and> tape g' = tape g \<and> cursor g' = Suc (cursor g)"
proof -
  have "tape g (cursor g) mod 2 ^ 53 < (2::nat) ^ 53" by simp
  then have "(of_nat (tape g (cursor g) mod 2 ^ 53) :: rat) < of_nat (2 ^ 53)"
    unfolding of_nat_less_iff .
  then have "(of_nat (tape g (cursor g) mod 2 ^ 53) :: rat) / 2 ^ 53 < 1" by simp
  then show ?thesis using assms by (auto simp: random_unit_def next_raw_def)
qed

lemma uniform_cursor:
  "uniform a b g = (v, g') \<Longrightarrow> tape g' = tape g \<and> cursor g' = Suc (cursor g)"
  by (auto simp: uniform_def split: prod.splits dest: random_unit_range)

lemma uniform_range:
  assumes "uniform a b g = (v, g')" and "a \<le> b"
  shows "a \<le> v \<and> v \<le> b"
proof -
  obtain u where u: "0 \<le> u" "u < 1" and v: "v = a + (b - a) * u"
    using assms(1) by (auto simp: uniform_def split: prod.splits dest: random_unit_range)
  have "0 \<le> (b - a) * u" using u assms(2) by simp
  moreover have "(b - a) * u \<le> (b - a) * 1"
    using u assms(2) by (intro mult_left_mono) auto
  ultimately show ?thesis using v by simp
qed

lemma uniform_range_reversed:
  assumes "uniform a b g = (v, g')" and "b \<le> a"
  shows "b \<le> v \<and> v \<le> a"
proof -
  obtain u where u: "0 \<le> u" "u < 1" and v: "v = a + (b - a) * u"
    using assms(1) by (auto simp: uniform_def split: prod.splits dest: random_unit_range)
  have "0 \<le> (a - b) * u" using u assms(2) by simp
  moreover have "(a - b) * u \<le> (a - b) * 1"
    using u assms(2) by (intro mult_left_mono) auto
  ultimately show ?thesis using v by (simp add: algebra_simps)
qed

lemma choice_Inr:
  assumes "choice xs g = Inr (x, g')"
  shows "\<exists>k<length xs. x = xs ! k \<and> k = tape g (cursor g) mod length xs"
    and "tape g' = tape g" and "cursor g' = Suc (cursor g)"
  using assms by (auto simp: choice_def randbelow_def next_raw_def split: if_splits)


lemma length_py_range: "length (py_range n) = nat n"
  by (simp add: py_range_def)

lemma set_py_range: "set (py_range n) = {0..<n}"
  by (auto simp: py_range_def)

lemma distinct_py_range: "distinct (py_range n)"
  by (simp add: py_range_def)

lemma span_bins_interval: "span_bins ind k w = {ind - k ..< ind - k + w}"
proof -
  have "(\<lambda>x. ind - k + x) ` {0..<w} = {ind - k ..< ind - k + w}"
  proof (intro set_eqI iffI)
    fix y assume "y \<in> {ind - k ..< ind - k + w}"
    then have "y - (ind - k) \<in> {0..<w}" "y = ind - k + (y - (ind - k))" by auto
    then show "y \<in> (\<lambda>x. ind - k + x) ` {0..<w}" by (rule_tac rev_image_eqI)
  qed auto
  then show ?thesis by (simp add: span_bins_def set_py_range)
qed

lemma Min_interval: "(a::int) < b \<Longrightarrow> Min {a..<b} = a"
  by (intro Min_eqI) auto

lemma Max_interval: "(a::int) < b \<Longrightarrow> Max {a..<b} = b - 1"
  by (intro Max_eqI) auto

lemma find_index_Some:
  "find_index xs v = Some i \<Longrightarrow> i < length xs \<and> xs ! i = v \<and> (\<forall>j<i. xs ! j \<noteq> v)"
proof (induction xs arbitrary: i)
  case Nil then show ?case by simp
next
  case (Cons x xs)
  show ?case
  proof (cases "x = v")
    case True with Cons.prems show ?thesis by simp
  next
    case False
    with Cons.prems obtain i' where i': "find_index xs v = Some i'" "i = Suc i'" by auto
    from Cons.IH[OF i'(1)] False i'(2) show ?thesis
      by (auto simp: nth_Cons split: nat.splits)
  qed
qed

lemma find_index_mem: "v \<in> set xs \<Longrightarrow> \<exists>i. find_index xs v = Some i"
  by (induction xs) auto

lemma find_index_distinct:
  assumes "distinct xs" "i < length xs"
  shows "find_index xs (xs ! i) = Some i"
proof -
  obtain j where j: "find_index xs (xs ! i) = Some j"
    using find_index_mem[of "xs ! i" xs] assms by auto
  from find_index_Some[OF j] assms have "j = i" by (auto simp: nth_eq_iff_index_eq)
  with j show ?thesis by simp
qed

section \<open>Where a candidate is placed\<close>

lemma valid_candidates_nth:
  assumes "0 \<le> w" and "int (length grid) \<le> n + 1"
      and "j < length (valid_candidates n grid w)"
  shows "valid_candidates n grid w ! j = grid ! (nat (w div 2) + j)"
    and "int (nat (w div 2) + j) < n - w div 2"
    and "nat (w div 2) + j < length grid"
proof -
  define k where "k = w div 2"
  have k: "0 \<le> k" using assms(1) by (simp add: k_def)
  define lo where "lo = slice_index (length grid) k"
  define hi where "hi = slice_index (length grid) (n - k)"
  have v: "valid_candidates n grid w = take (hi - lo) (drop lo grid)"
    by (simp add: valid_candidates_def py_slice_def Let_def lo_def hi_def k_def)
  from assms(3) have j: "j < hi - lo" "j < length grid - lo" by (simp_all add: v)
  have lo: "lo = nat k" using j(2) k by (auto simp: lo_def slice_index_def min_def split: if_splits)
  have nk: "0 \<le> n - k"
  proof (rule ccontr)
    assume "\<not> 0 \<le> n - k"
    then have "int (length grid) \<le> k" using assms(2) by linarith
    then show False using j(2) lo k by linarith
  qed
  then have hi: "hi \<le> nat (n - k)" by (simp add: hi_def slice_index_def)
  have "nat k \<le> length grid" using j(2) lo by linarith
  then show "valid_candidates n grid w ! j = grid ! (nat (w div 2) + j)"
    using j lo by (simp add: v k_def nth_drop)
  show "int (nat (w div 2) + j) < n - w div 2"
    using j(1) hi lo k nk unfolding k_def by linarith
  show "nat (w div 2) + j < length grid"
    using j(2) lo unfolding k_def by linarith
qed

lemma place_center_Inr:
  assumes "place_center n grid w g = Inr ((cf, occ), g')"
  shows "\<exists>j ind. j < length (valid_candidates n grid w)
           \<and> j = tape g (cursor g) mod length (valid_candidates n grid w)
           \<and> cf = valid_candidates n grid w ! j
           \<and> find_index grid cf = Some ind
           \<and> occ = span_bins (int ind) (w div 2) w"
    and "tape g' = tape g" and "cursor g' = Suc (cursor g)"
proof -
  from assms obtain ind where c: "choice (valid_candidates n grid w) g = Inr (cf, g')"
      and i: "py_index grid cf = Inr ind" and o: "occ = span_bins ind (w div 2) w"
    by (auto simp: place_center_def split: sum.splits)
  from i obtain ind' where "find_index grid cf = Some ind'" "ind = int ind'"
    by (auto simp: py_index_def split: option.splits)
  with choice_Inr(1)[OF c] o
  show "\<exists>j ind. j < length (valid_candidates n grid w)
           \<and> j = tape g (cursor g) mod length (valid_candidates n grid w)
           \<and> cf = valid_candidates n grid w ! j
           \<and> find_index grid cf = Some ind
           \<and> occ = span_bins (int ind) (w div 2) w" by auto
  show "tape g' = tape g" "cursor g' = Suc (cursor g)"
    using choice_Inr(2,3)[OF c] by auto
qed

lemma place_center_span:
  assumes "place_center n grid w g = Inr ((cf, occ), g')"
      and "1 \<le> w" and "int (length grid) \<le> n + 1"
  shows "\<exists>ind. occ = {ind - w div 2 ..< ind - w div 2 + w} \<and> 0 \<le> ind \<and> ind < n - w div 2
           \<and> (distinct grid \<longrightarrow> w div 2 \<le> ind
                \<and> nat (ind - w div 2) = tape g (cursor g) mod length (valid_candidates n grid w)
                \<and> nat (ind - w div 2) < length (valid_candidates n grid w))
           \<and> ((\<forall>x\<in>set grid. \<forall>y\<in>set grid. x = y) \<longrightarrow> ind = 0)"
proof -
  from place_center_Inr(1)[OF assms(1)] obtain j ind where
    j: "j < length (valid_candidates n grid w)"
       "j = tape g (cursor g) mod length (valid_candidates n grid w)"
       "cf = valid_candidates n grid w ! j"
    and f: "find_index grid cf = Some ind" and o: "occ = span_bins (int ind) (w div 2) w"
    by blast
  have w0: "0 \<le> w" using assms(2) by simp
  note vc = valid_candidates_nth[OF w0 assms(3) j(1)]
  have cf: "cf = grid ! (nat (w div 2) + j)" using j(3) vc(1) by simp
  have fi1: "ind < length grid" and fi2: "grid ! ind = cf"
    and fi3: "\<forall>i<ind. grid ! i \<noteq> cf"
    using find_index_Some[OF f] by simp_all
  have le: "ind \<le> nat (w div 2) + j"
  proof (rule ccontr)
    assume "\<not> ind \<le> nat (w div 2) + j"
    then have "nat (w div 2) + j < ind" by simp
    then have "grid ! (nat (w div 2) + j) \<noteq> cf" using fi3 by simp
    then show False using cf by simp
  qed
  have d: "ind = nat (w div 2) + j" if "distinct grid"
    using find_index_distinct[OF that vc(3)] f cf by simp
  have z: "ind = 0" if "\<forall>x\<in>set grid. \<forall>y\<in>set grid. x = y"
  proof (rule ccontr)
    assume "ind \<noteq> 0"
    then have pos: "0 < ind" by simp
    then have "0 < length grid" using fi1 by linarith
    then have m0: "grid ! 0 \<in> set grid" by (rule nth_mem)
    have mi: "grid ! ind \<in> set grid" using fi1 by (rule nth_mem)
    have "grid ! 0 = grid ! ind" using that m0 mi by simp
    moreover have "grid ! 0 \<noteq> cf" using fi3 pos by simp
    ultimately show False using fi2 by simp
  qed
  have k: "0 \<le> w div 2" using w0 by simp
  show ?thesis
  proof (intro exI[of _ "int ind"] conjI impI)
    show "occ = {int ind - w div 2 ..< int ind - w div 2 + w}" using o by (simp add: span_bins_interval)
    show "0 \<le> int ind" by simp
    show "int ind < n - w div 2" using le vc(2) by linarith
    show "w div 2 \<le> int ind" if "distinct grid" using d[OF that] k by linarith
    show "nat (int ind - w div 2) = tape g (cursor g) mod length (valid_candidates n grid w)"
      if "distinct grid" using d[OF that] k j(2) by simp
    show "nat (int ind - w div 2) < length (valid_candidates n grid w)"
      if "distinct grid" using d[OF that] k j(1) by simp
    show "int ind = 0" if "\<forall>x\<in>set grid. \<forall>y\<in>set grid. x = y" using z[OF that] by simp
  qed
qed

section \<open>The candidate generator\<close>

lemma length_bin_edges: "length (bin_edges_of cb bb n) = nat (n + 1)"
  by (simp add: bin_edges_of_def length_py_range)

lemma length_bin_centers: "length (bin_centers_of cb bb n) = nat n"
  by (simp add: bin_centers_of_def length_py_range)

lemma distinct_bin_edges: "bb \<noteq> 0 \<Longrightarrow> distinct (bin_edges_of cb bb n)"
  by (simp add: bin_edges_of_def distinct_map distinct_py_range inj_on_def)

lemma distinct_bin_centers: "bb \<noteq> 0 \<Longrightarrow> distinct (bin_centers_of cb bb n)"
  by (simp add: bin_centers_of_def distinct_map distinct_py_range inj_on_def)

lemma constant_bin_edges: "\<forall>x\<in>set (bin_edges_of cb 0 n). \<forall>y\<in>set (bin_edges_of cb 0 n). x = y"
  by (auto simp: bin_edges_of_def)

lemma constant_bin_centers:
  "\<forall>x\<in>set (bin_centers_of cb 0 n). \<forall>y\<in>set (bin_centers_of cb 0 n). x = y"
  by (auto simp: bin_centers_of_def)

lemma gen_candidate_Inr:
  assumes "gen_candidate n be bc vb mn mx msb g = Inr (c, g')"
  shows "\<exists>g1 g2. randint 1 msb g = Inr (sig_n_bins c, g1)
           \<and> uniform mn mx g1 = (snr c, g2)
           \<and> place_center n (if sig_n_bins c mod 2 = 0 then be else bc) (sig_n_bins c) g2
               = Inr ((center_freq c, occupied_bins c), g')
           \<and> guard_of n vb (occupied_bins c) = Inr (guard_bins c)"
  using assms unfolding gen_candidate_def
  by (auto split: sum.splits prod.splits if_splits)

lemma guard_of_interval:
  assumes "guard_of n (set (py_range n)) {lo ..< lo + w} = Inr gd" and "1 \<le> w"
  shows "gd = {(lo - 1) mod n, (lo + w) mod n} \<inter> {0 ..< n}"
proof -
  have ne: "{lo ..< lo + w} \<noteq> {}" using assms(2) by simp
  have "lo < lo + w" using assms(2) by simp
  then have "Min {lo ..< lo + w} = lo" "Max {lo ..< lo + w} = lo + w - 1"
    by (simp_all add: Min_interval Max_interval)
  then show ?thesis using assms(1) ne by (simp add: guard_of_def set_py_range)
qed

lemma gen_candidate_draws:
  assumes "gen_candidate n be bc vb mn mx msb g = Inr (c, g')"
  shows "tape g' = tape g" and "cursor g' = cursor g + 3"
    and "1 \<le> sig_n_bins c" and "sig_n_bins c \<le> msb"
proof -
  from gen_candidate_Inr[OF assms] obtain g1 g2 where
    r: "randint 1 msb g = Inr (sig_n_bins c, g1)" and u: "uniform mn mx g1 = (snr c, g2)"
    and p: "place_center n (if sig_n_bins c mod 2 = 0 then be else bc) (sig_n_bins c) g2
              = Inr ((center_freq c, occupied_bins c), g')"
    by blast
  note r' = randint_Inr[OF r] and u' = uniform_cursor[OF u]
    and p' = place_center_Inr(2,3)[OF p]
  show "tape g' = tape g" using r' u' p' by simp
  show "cursor g' = cursor g + 3" using r' u' p' by simp
  show "1 \<le> sig_n_bins c" "sig_n_bins c \<le> msb" using r' by simp_all
qed

lemma gen_candidate_snr:
  assumes "gen_candidate n be bc vb mn mx msb g = Inr (c, g')"
  shows "mn \<le> mx \<Longrightarrow> mn \<le> snr c \<and> snr c \<le> mx"
    and "mx \<le> mn \<Longrightarrow> mx \<le> snr c \<and> snr c \<le> mn"
proof -
  from gen_candidate_Inr[OF assms] obtain g1 g2 where
    u: "uniform mn mx g1 = (snr c, g2)" by blast
  show "mn \<le> mx \<Longrightarrow> mn \<le> snr c \<and> snr c \<le> mx" using uniform_range[OF u] by simp
  show "mx \<le> mn \<Longrightarrow> mx \<le> snr c \<and> snr c \<le> mn" using uniform_range_reversed[OF u] by simp
qed

lemma gen_candidate_span:
  assumes gen: "gen_candidate n (bin_edges_of cb bb n) (bin_centers_of cb bb n)
                  (set (py_range n)) mn mx msb g = Inr (c, g')"
  shows "\<exists>ind. occupied_bins c
               = {ind - sig_n_bins c div 2 ..< ind - sig_n_bins c div 2 + sig_n_bins c}
           \<and> 0 \<le> ind \<and> ind < n - sig_n_bins c div 2
           \<and> (bb \<noteq> 0 \<longrightarrow> sig_n_bins c div 2 \<le> ind)
           \<and> (bb = 0 \<longrightarrow> ind = 0)"
proof -
  define w where "w = sig_n_bins c"
  define grid where "grid = (if w mod 2 = 0 then bin_edges_of cb bb n else bin_centers_of cb bb n)"
  from gen_candidate_Inr[OF gen] obtain g2 where
    p: "place_center n grid w g2 = Inr ((center_freq c, occupied_bins c), g')"
    unfolding w_def grid_def by blast
  have w1: "1 \<le> w" using gen_candidate_draws(3)[OF gen] by (simp add: w_def)
  have ne: "valid_candidates n grid w \<noteq> []"
    using p by (auto simp: place_center_def choice_def split: sum.splits if_splits)
  then have "grid \<noteq> []" by (auto simp: valid_candidates_def py_slice_def Let_def)
  then have lg: "length grid \<noteq> 0" by simp
  have "length grid = nat (n + 1) \<or> length grid = nat n"
    by (simp add: grid_def length_bin_edges length_bin_centers)
  then have len: "int (length grid) \<le> n + 1" using lg by linarith
  have dist: "distinct grid" if "bb \<noteq> 0"
    using that by (simp add: grid_def distinct_bin_edges distinct_bin_centers)
  have const: "\<forall>x\<in>set grid. \<forall>y\<in>set grid. x = y" if "bb = 0"
    using that constant_bin_edges[of cb n] constant_bin_centers[of cb n]
    by (simp add: grid_def)
  from place_center_span[OF p w1 len] obtain ind where
    i: "occupied_bins c = {ind - w div 2 ..< ind - w div 2 + w}" "0 \<le> ind" "ind < n - w div 2"
       "distinct grid \<longrightarrow> w div 2 \<le> ind"
       "(\<forall>x\<in>set grid. \<forall>y\<in>set grid. x = y) \<longrightarrow> ind = 0"
    by blast
  show ?thesis
    using i dist const unfolding w_def[symmetric] by (intro exI[of _ ind]) blast
qed

lemma gen_candidate_well_placed:
  assumes gen: "gen_candidate n (bin_edges_of cb bb n) (bin_centers_of cb bb n)
                  (set (py_range n)) mn mx msb g = Inr (c, g')"
      and bb: "bb \<noteq> 0"
  shows "well_placed n c"
proof -
  define w where "w = sig_n_bins c"
  have w1: "1 \<le> w" using gen_candidate_draws(3)[OF gen] by (simp add: w_def)
  from gen_candidate_span[OF gen] bb obtain ind where
    occ: "occupied_bins c = {ind - w div 2 ..< ind - w div 2 + w}"
    and lo: "w div 2 \<le> ind" and hi: "ind < n - w div 2"
    unfolding w_def by blast
  define lo where "lo = ind - w div 2"
  from gen_candidate_Inr[OF gen] have gd: "guard_of n (set (py_range n)) {lo ..< lo + w}
      = Inr (guard_bins c)" using occ by (auto simp: lo_def)
  have "w \<le> 2 * (w div 2) + 1" by linarith
  then have "lo + w \<le> n" using hi unfolding lo_def by linarith
  moreover have "0 \<le> lo" using lo unfolding lo_def by simp
  ultimately show ?thesis
    unfolding well_placed_def
    using w1 occ guard_of_interval[OF gd w1]
    by (intro exI[of _ lo]) (simp add: w_def[symmetric] lo_def[symmetric])
qed

lemma gen_candidate_holds_zero:
  assumes gen: "gen_candidate n (bin_edges_of cb 0 n) (bin_centers_of cb 0 n)
                  (set (py_range n)) mn mx msb g = Inr (c, g')"
  shows "0 \<in> occupied_bins c"
proof -
  define w where "w = sig_n_bins c"
  have w1: "1 \<le> w" using gen_candidate_draws(3)[OF gen] by (simp add: w_def)
  from gen_candidate_span[OF gen] have
    occ: "occupied_bins c = {0 - w div 2 ..< 0 - w div 2 + w}"
    unfolding w_def by auto
  have "0 \<le> w div 2" "w div 2 < w" using w1 by linarith+
  then show ?thesis unfolding occ by simp
qed

section \<open>The collision check is symmetric\<close>

lemma guard_below: "0 \<le> lo \<Longrightarrow> lo < n \<Longrightarrow> (lo - 1) mod n = (if lo = 0 then n - 1 else lo - (1::int))"
proof (cases "lo = 0")
  case True
  assume "lo < n"
  with True have "1 \<le> n" by simp
  then have "(- 1) mod n = n - 1" by (simp add: zmod_minus1)
  with True show ?thesis by simp
next
  case False
  assume "0 \<le> lo" "lo < n"
  with False have "0 \<le> lo - 1" "lo - 1 < n" by simp_all
  then have "(lo - 1) mod n = lo - 1" by simp
  with False show ?thesis by simp
qed

lemma guard_above: "0 \<le> hi \<Longrightarrow> hi \<le> n \<Longrightarrow> 1 \<le> n \<Longrightarrow> hi mod n = (if hi = n then 0 else (hi::int))"
  by simp

lemma well_placed_guards:
  assumes "well_placed n s"
  obtains lo where "0 \<le> lo" "1 \<le> sig_n_bins s" "lo + sig_n_bins s \<le> n"
    "occupied_bins s = {lo ..< lo + sig_n_bins s}"
    "guard_bins s = {if lo = 0 then n - 1 else lo - 1,
                     if lo + sig_n_bins s = n then 0 else lo + sig_n_bins s}"
proof -
  from assms obtain lo where lo: "0 \<le> lo" "1 \<le> sig_n_bins s" "lo + sig_n_bins s \<le> n"
    "occupied_bins s = {lo ..< lo + sig_n_bins s}"
    "guard_bins s = {(lo - 1) mod n, (lo + sig_n_bins s) mod n} \<inter> {0 ..< n}"
    unfolding well_placed_def by blast
  have n: "1 \<le> n" "lo < n" using lo(1-3) by linarith+
  have g1: "(lo - 1) mod n = (if lo = 0 then n - 1 else lo - 1)"
    using guard_below[OF lo(1) n(2)] .
  have g2: "(lo + sig_n_bins s) mod n = (if lo + sig_n_bins s = n then 0 else lo + sig_n_bins s)"
    using guard_above[of "lo + sig_n_bins s" n] lo(1-3) n(1) by simp
  have "guard_bins s = {if lo = 0 then n - 1 else lo - 1,
                     if lo + sig_n_bins s = n then 0 else lo + sig_n_bins s}"
    unfolding lo(5) g1 g2 using lo(1-3) n by auto
  with lo(1-4) that show thesis by blast
qed

lemma well_placed_clear_sym:
  assumes a: "well_placed n a" and b: "well_placed n b"
      and ba: "occupied_bins b \<inter> (occupied_bins a \<union> guard_bins a) = {}"
  shows "occupied_bins a \<inter> (occupied_bins b \<union> guard_bins b) = {}"
proof -
  define wa where "wa = sig_n_bins a"
  define wb where "wb = sig_n_bins b"
  from well_placed_guards[OF a] obtain la where la: "0 \<le> la" "1 \<le> wa" "la + wa \<le> n"
    and oa: "occupied_bins a = {la ..< la + wa}"
    and ga: "guard_bins a = {if la = 0 then n - 1 else la - 1,
                             if la + wa = n then 0 else la + wa}"
    unfolding wa_def by blast
  from well_placed_guards[OF b] obtain lb where lb: "0 \<le> lb" "1 \<le> wb" "lb + wb \<le> n"
    and ob: "occupied_bins b = {lb ..< lb + wb}"
    and gb: "guard_bins b = {if lb = 0 then n - 1 else lb - 1,
                             if lb + wb = n then 0 else lb + wb}"
    unfolding wb_def by blast
  have lb_in: "lb \<in> occupied_bins b" and hb_in: "lb + wb - 1 \<in> occupied_bins b"
    using lb by (simp_all add: ob)
  have f1: "\<not> (la \<le> lb \<and> lb < la + wa)" using ba lb_in oa by auto
  have f3: "lb \<noteq> (if la + wa = n then 0 else la + wa)" using ba lb_in ga by auto
  have f4: "\<not> (la \<le> lb + wb - 1 \<and> lb + wb - 1 < la + wa)" using ba hb_in oa by auto
  have f5: "lb + wb - 1 \<noteq> (if la = 0 then n - 1 else la - 1)" using ba hb_in ga by auto
  have d: "occupied_bins a \<inter> occupied_bins b = {}" using ba by auto
  have g1: "(if lb = 0 then n - 1 else lb - 1) \<notin> occupied_bins a"
  proof (cases "lb = 0")
    case True
    show ?thesis
    proof
      assume "(if lb = 0 then n - 1 else lb - 1) \<in> occupied_bins a"
      with True oa have "la \<le> n - 1" "n - 1 < la + wa" by auto
      with la have "la + wa = n" by linarith
      with f3 True show False by simp
    qed
  next
    case False
    show ?thesis
    proof
      assume "(if lb = 0 then n - 1 else lb - 1) \<in> occupied_bins a"
      with False oa have m: "la \<le> lb - 1" "lb - 1 < la + wa" by auto
      with f1 have e: "lb = la + wa" by linarith
      with lb have "la + wa \<noteq> n" by linarith
      with f3 e show False by simp
    qed
  qed
  have g2: "(if lb + wb = n then 0 else lb + wb) \<notin> occupied_bins a"
  proof (cases "lb + wb = n")
    case True
    show ?thesis
    proof
      assume "(if lb + wb = n then 0 else lb + wb) \<in> occupied_bins a"
      with True oa have "la \<le> 0" by auto
      with la have "la = 0" by linarith
      with f5 True show False by simp
    qed
  next
    case False
    show ?thesis
    proof
      assume "(if lb + wb = n then 0 else lb + wb) \<in> occupied_bins a"
      with False oa have m: "la \<le> lb + wb" "lb + wb < la + wa" by auto
      with f4 have e: "lb + wb = la" by linarith
      with lb have "la \<noteq> 0" by linarith
      with f5 e show False by simp
    qed
  qed
  show ?thesis using d g1 g2 unfolding gb by auto
qed

section \<open>The placement loop\<close>

lemma overlaps_iff:
  "overlaps occ signals
     \<longleftrightarrow> (\<exists>e\<in>set signals. occ \<inter> (occupied_bins e \<union> guard_bins e) \<noteq> {})"
  by (simp add: overlaps_def list_ex_iff)

lemma attempt_Inr:
  assumes "attempt n be bc vb mn mx types msb signals g = Inr (signals', g')"
  shows "\<exists>c g3. gen_candidate n be bc vb mn mx msb g = Inr (c, g3)
           \<and> (if overlaps (occupied_bins c) signals then signals' = signals \<and> g' = g3
               else \<exists>m. choice types g3 = Inr (m, g')
                      \<and> signals' = signals @ [add_modulation c m])"
  using assms unfolding attempt_def
  by (auto split: sum.splits prod.splits if_splits)

lemma attempt_length:
  assumes "attempt n be bc vb mn mx types msb signals g = Inr (signals', g')"
  shows "prefix signals signals'" and "length signals' \<le> Suc (length signals)"
  using attempt_Inr[OF assms] by (auto split: if_splits)

lemma placement_loop_stop:
  "\<not> (int (length signals) < n_signals \<and> tries < max_tries)
   \<Longrightarrow> placement_loop body n_signals max_tries signals tries g = Inr (signals, tries, g)"
  by (subst placement_loop.simps) auto

lemma placement_loop_step:
  "int (length signals) < n_signals \<Longrightarrow> tries < max_tries
   \<Longrightarrow> placement_loop body n_signals max_tries signals tries g
       = (case body signals g of Inl e \<Rightarrow> Inl e
          | Inr (s', h') \<Rightarrow> placement_loop body n_signals max_tries s' (tries + 1) h')"
  by (subst placement_loop.simps) auto

lemma placement_loop_rule:
  assumes run: "placement_loop body n_signals max_tries signals tries g = Inr (signals', tries', g')"
      and init: "J signals tries g"
      and step: "\<And>s t h s' h'. J s t h \<Longrightarrow> int (length s) < n_signals \<Longrightarrow> t < max_tries
                   \<Longrightarrow> body s h = Inr (s', h') \<Longrightarrow> J s' (t + 1) h'"
  shows "J signals' tries' g' \<and> \<not> (int (length signals') < n_signals \<and> tries' < max_tries)"
  using run init step
proof (induction body n_signals max_tries signals tries g rule: placement_loop.induct)
  case (1 body n_signals max_tries signals tries g)
  show ?case
  proof (cases "int (length signals) < n_signals \<and> tries < max_tries")
    case False
    then have "placement_loop body n_signals max_tries signals tries g = Inr (signals, tries, g)"
      by (rule placement_loop_stop)
    with "1.prems" False show ?thesis by simp
  next
    case True
    then have unfold: "placement_loop body n_signals max_tries signals tries g
        = (case body signals g of Inl e \<Rightarrow> Inl e
           | Inr (s', h') \<Rightarrow> placement_loop body n_signals max_tries s' (tries + 1) h')"
      by (simp add: placement_loop_step)
    with "1.prems"(1) obtain s' h' where b: "body signals g = Inr (s', h')"
      and r: "placement_loop body n_signals max_tries s' (tries + 1) h' = Inr (signals', tries', g')"
      by (auto split: sum.splits)
    have "J s' (tries + 1) h'" using "1.prems"(3)[OF "1.prems"(2) _ _ b] True by simp
    from "1.IH"[OF True b refl r this "1.prems"(3)] show ?thesis by simp
  qed
qed

lemma loop_within_enough:
  "nat (max_tries - tries) \<le> k
   \<Longrightarrow> loop_within k body n_signals max_tries signals tries g
       = Some (placement_loop body n_signals max_tries signals tries g)"
proof (induction k arbitrary: signals tries g)
  case 0
  then have "\<not> tries < max_tries" by simp
  then show ?case by (simp add: placement_loop_stop)
next
  case (Suc k)
  show ?case
  proof (cases "int (length signals) < n_signals \<and> tries < max_tries")
    case False
    then show ?thesis by (auto simp: placement_loop_stop)
  next
    case True
    have k: "nat (max_tries - (tries + 1)) \<le> k" using Suc.prems True by linarith
    show ?thesis
    proof (cases "body signals g")
      case (Inl e)
      then show ?thesis using True by (simp add: placement_loop_step)
    next
      case (Inr r)
      obtain s' h' where r: "r = (s', h')" by (cases r)
      show ?thesis using True Inr r Suc.IH[OF k, of s' h']
        by (simp add: placement_loop_step)
    qed
  qed
qed

lemma placement_loop_bounds:
  assumes run: "placement_loop (attempt n be bc vb mn mx types msb) n_signals max_tries
                  signals tries g = Inr (signals', tries', g')"
  shows "tries \<le> tries'" and "tries' \<le> max tries max_tries"
    and "prefix signals signals'"
    and "int (length signals') \<le> max (int (length signals)) n_signals"
    and "tape g' = tape g"
proof -
  define J where "J = (\<lambda>s t (h::rng). tries \<le> t \<and> t \<le> max tries max_tries
      \<and> prefix signals s \<and> int (length s) \<le> max (int (length signals)) n_signals
      \<and> tape h = tape g)"
  have init: "J signals tries g" by (simp add: J_def)
  have step: "J s' (t + 1) h'"
    if j: "J s t h" and c: "int (length s) < n_signals" "t < max_tries"
      and b: "attempt n be bc vb mn mx types msb s h = Inr (s', h')" for s t h s' h'
  proof -
    note al = attempt_length[OF b]
    from attempt_Inr[OF b] obtain c g3 where
      gc: "gen_candidate n be bc vb mn mx msb h = Inr (c, g3)"
      and rest: "if overlaps (occupied_bins c) s then s' = s \<and> h' = g3
                 else \<exists>m. choice types g3 = Inr (m, h') \<and> s' = s @ [add_modulation c m]"
      by blast
    have "tape g3 = tape h" using gen_candidate_draws(1)[OF gc] .
    moreover have "tape h' = tape g3" using rest by (auto split: if_splits dest: choice_Inr(2))
    ultimately have th: "tape h' = tape g" using j by (simp add: J_def)
    have "prefix signals s'" using j al(1) unfolding J_def by (meson prefix_order.trans)
    moreover have "int (length s') \<le> max (int (length signals)) n_signals"
      using al(2) c(1) by linarith
    ultimately show ?thesis using j c th by (simp add: J_def)
  qed
  have "J signals' tries' g'
      \<and> \<not> (int (length signals') < n_signals \<and> tries' < max_tries)"
    using run init by (rule placement_loop_rule[where J = J]) (rule step)
  then have "J signals' tries' g'" ..
  then show "tries \<le> tries'" "tries' \<le> max tries max_tries" "prefix signals signals'"
    "int (length signals') \<le> max (int (length signals)) n_signals" "tape g' = tape g"
    by (simp_all add: J_def)
qed

lemma placement_loop_tries:
  assumes run: "placement_loop body n_signals max_tries signals tries g = Inr (signals', tries', g')"
  shows "tries \<le> tries' \<and> tries' \<le> max tries max_tries"
proof -
  define J where "J = (\<lambda>(s::signal list) t (h::rng). tries \<le> t \<and> t \<le> max tries max_tries)"
  have init: "J signals tries g" by (simp add: J_def)
  have "J signals' tries' g'
      \<and> \<not> (int (length signals') < n_signals \<and> tries' < max_tries)"
    using run init by (rule placement_loop_rule[where J = J]) (simp add: J_def)
  then show ?thesis by (simp add: J_def)
qed


section \<open>Invariants of the accepted signals\<close>

lemma add_modulation_sel:
  "sig_n_bins (add_modulation c m) = sig_n_bins c"
  "snr (add_modulation c m) = snr c"
  "center_freq (add_modulation c m) = center_freq c"
  "occupied_bins (add_modulation c m) = occupied_bins c"
  "guard_bins (add_modulation c m) = guard_bins c"
  "modulation_type (add_modulation c m) = m"
  by (simp_all add: add_modulation_def)

lemma well_placed_add_modulation: "well_placed n (add_modulation c m) = well_placed n c"
  by (simp add: well_placed_def add_modulation_sel)

lemma attempt_cases:
  assumes "attempt n be bc vb mn mx types msb signals g = Inr (signals', g')"
  shows "signals' = signals
       \<or> (\<exists>c h h' m. gen_candidate n be bc vb mn mx msb h = Inr (c, h') \<and> m \<in> set types
              \<and> \<not> overlaps (occupied_bins c) signals
              \<and> signals' = signals @ [add_modulation c m])"
proof -
  from attempt_Inr[OF assms] obtain c g3 where
    gc: "gen_candidate n be bc vb mn mx msb g = Inr (c, g3)"
    and rest: "if overlaps (occupied_bins c) signals then signals' = signals \<and> g' = g3
               else \<exists>m. choice types g3 = Inr (m, g') \<and> signals' = signals @ [add_modulation c m]"
    by blast
  show ?thesis
  proof (cases "overlaps (occupied_bins c) signals")
    case True
    with rest show ?thesis by simp
  next
    case False
    with rest obtain m where m: "choice types g3 = Inr (m, g')"
      and s: "signals' = signals @ [add_modulation c m]" by auto
    have "m \<in> set types" using choice_Inr(1)[OF m] by auto
    with gc False s show ?thesis by blast
  qed
qed

lemma loop_signals_clear:
  assumes run: "placement_loop (attempt n be bc vb mn mx types msb) n_signals max_tries
                  [] tries g = Inr (signals', tries', g')"
      and new: "\<And>c h h' m. gen_candidate n be bc vb mn mx msb h = Inr (c, h')
                  \<Longrightarrow> Q (add_modulation c m)"
      and sym: "\<And>a b. Q a \<Longrightarrow> Q b
                  \<Longrightarrow> occupied_bins b \<inter> (occupied_bins a \<union> guard_bins a) = {}
                  \<Longrightarrow> occupied_bins a \<inter> (occupied_bins b \<union> guard_bins b) = {}"
  shows "sorted_wrt (\<lambda>a b. occupied_bins a \<inter> (occupied_bins b \<union> guard_bins b) = {}
                         \<and> occupied_bins b \<inter> (occupied_bins a \<union> guard_bins a) = {}) signals'"
proof -
  define R where "R = (\<lambda>(a::signal) (b::signal).
      occupied_bins a \<inter> (occupied_bins b \<union> guard_bins b) = {}
      \<and> occupied_bins b \<inter> (occupied_bins a \<union> guard_bins a) = {})"
  define J where "J = (\<lambda>(s::signal list) (t::int) (h::rng). sorted_wrt R s \<and> (\<forall>x\<in>set s. Q x))"
  have init': "J [] tries g" by (simp add: J_def)
  have "J signals' tries' g'
      \<and> \<not> (int (length signals') < n_signals \<and> tries' < max_tries)"
    using run init'
  proof (rule placement_loop_rule[where J = J])
    fix s t h s' h'
    assume j: "J s t h" and b: "attempt n be bc vb mn mx types msb s h = Inr (s', h')"
    from attempt_cases[OF b] show "J s' (t + 1) h'"
    proof
      assume "s' = s" with j show ?thesis by (simp add: J_def)
    next
      assume "\<exists>c h h' m. gen_candidate n be bc vb mn mx msb h = Inr (c, h') \<and> m \<in> set types
              \<and> \<not> overlaps (occupied_bins c) s \<and> s' = s @ [add_modulation c m]"
      then obtain c k k' m where gc: "gen_candidate n be bc vb mn mx msb k = Inr (c, k')"
        and no: "\<not> overlaps (occupied_bins c) s" and s': "s' = s @ [add_modulation c m]"
        by blast
      define x where "x = add_modulation c m"
      have qx: "Q x" unfolding x_def using new[OF gc] .
      have xe: "occupied_bins x \<inter> (occupied_bins e \<union> guard_bins e) = {}" if "e \<in> set s" for e
        using no that by (auto simp: overlaps_iff x_def add_modulation_sel)
      have "R e x" if "e \<in> set s" for e
      proof -
        have "Q e" using j that by (simp add: J_def)
        from sym[OF this qx xe[OF that]] xe[OF that] show ?thesis by (simp add: R_def)
      qed
      then show ?thesis using j qx unfolding s' x_def[symmetric]
        by (simp add: J_def sorted_wrt_append)
    qed
  qed
  then show ?thesis by (simp add: J_def R_def)
qed

lemma generate_band_plan_Inr:
  assumes "generate_band_plan prng os_entropy channel_bandwidth n_bins n_signals min_snr_db
             max_snr_db signal_types instance_seed max_signal_bins max_tries = Inr plan"
  shows "n_bins \<noteq> 0"
    and "\<exists>tries g. placement_loop
           (attempt n_bins
              (bin_edges_of channel_bandwidth (channel_bandwidth / of_int n_bins) n_bins)
              (bin_centers_of channel_bandwidth (channel_bandwidth / of_int n_bins) n_bins)
              (set (py_range n_bins)) min_snr_db max_snr_db signal_types max_signal_bins)
           n_signals max_tries [] 0 (seed prng os_entropy instance_seed)
         = Inr (bp_signals plan, tries, g)"
  using assms unfolding generate_band_plan_def Let_def
  by (auto split: if_splits sum.splits)

section \<open>The exceptions of a candidate\<close>







section \<open>The SNR bounds do not steer the run\<close>







section \<open>The claims\<close>

subsection \<open>C1: symmetric disjointness\<close>

text \<open>
  Claim C1: in every plan that \<open>generate_band_plan\<close> returns, for any two distinct
  signals \<open>a\<close> and \<open>b\<close> of the list, the occupied bins of \<open>a\<close> are disjoint from the
  occupied bins of \<open>b\<close> and from the union of the occupied and the guard bins of \<open>b\<close>,
  although the code checks only a new candidate's occupied bins against the accepted
  signals' occupied or guard bins.

  The statement is made for two positions of the list, and for two distinct elements.
  It needs no precondition: with \<open>channel_bandwidth \<noteq> 0\<close> every accepted signal is well
  placed, and the check is symmetric on well placed signals; with
  \<open>channel_bandwidth = 0\<close> every candidate occupies bin 0, so a plan has one signal at
  most.
\<close>

theorem symmetric_disjointness:
  assumes run: "generate_band_plan prng os_entropy channel_bandwidth n_bins n_signals min_snr_db
                  max_snr_db signal_types instance_seed max_signal_bins max_tries = Inr plan"
  shows "(\<forall>i j. i < length (bp_signals plan) \<and> j < length (bp_signals plan) \<and> i \<noteq> j
            \<longrightarrow> occupied_bins (bp_signals plan ! i) \<inter> occupied_bins (bp_signals plan ! j) = {}
              \<and> occupied_bins (bp_signals plan ! i)
                  \<inter> (occupied_bins (bp_signals plan ! j) \<union> guard_bins (bp_signals plan ! j))
                = {})
       \<and> (\<forall>a\<in>set (bp_signals plan). \<forall>b\<in>set (bp_signals plan). a \<noteq> b
            \<longrightarrow> occupied_bins a \<inter> occupied_bins b = {}
              \<and> occupied_bins a \<inter> (occupied_bins b \<union> guard_bins b) = {})"
proof -
  define sigs where "sigs = bp_signals plan"
  define bb where "bb = channel_bandwidth / of_int n_bins"
  define R where "R = (\<lambda>(a::signal) (b::signal).
      occupied_bins a \<inter> (occupied_bins b \<union> guard_bins b) = {}
      \<and> occupied_bins b \<inter> (occupied_bins a \<union> guard_bins a) = {})"
  note nz = generate_band_plan_Inr(1)[OF run]
  from generate_band_plan_Inr(2)[OF run] obtain tries g where
    loop: "placement_loop
           (attempt n_bins (bin_edges_of channel_bandwidth bb n_bins)
              (bin_centers_of channel_bandwidth bb n_bins)
              (set (py_range n_bins)) min_snr_db max_snr_db signal_types max_signal_bins)
           n_signals max_tries [] 0 (seed prng os_entropy instance_seed)
         = Inr (sigs, tries, g)"
    unfolding sigs_def bb_def by blast
  have sw: "sorted_wrt R sigs"
  proof (cases "channel_bandwidth = 0")
    case True
    then have bb0: "bb = 0" by (simp add: bb_def)
    show ?thesis unfolding R_def using loop
    proof (rule loop_signals_clear[where Q = "\<lambda>s. 0 \<in> occupied_bins s"])
      fix c h h' m
      assume "gen_candidate n_bins (bin_edges_of channel_bandwidth bb n_bins)
          (bin_centers_of channel_bandwidth bb n_bins) (set (py_range n_bins))
          min_snr_db max_snr_db max_signal_bins h = Inr (c, h')"
      then show "0 \<in> occupied_bins (add_modulation c m)"
        unfolding bb0 by (simp add: add_modulation_sel gen_candidate_holds_zero)
    next
      fix a b :: signal
      assume "0 \<in> occupied_bins a" "0 \<in> occupied_bins b"
        "occupied_bins b \<inter> (occupied_bins a \<union> guard_bins a) = {}"
      then show "occupied_bins a \<inter> (occupied_bins b \<union> guard_bins b) = {}" by blast
    qed
  next
    case False
    then have bbn: "bb \<noteq> 0" using nz by (simp add: bb_def)
    show ?thesis unfolding R_def using loop
    proof (rule loop_signals_clear[where Q = "well_placed n_bins"])
      fix c h h' m
      assume "gen_candidate n_bins (bin_edges_of channel_bandwidth bb n_bins)
          (bin_centers_of channel_bandwidth bb n_bins) (set (py_range n_bins))
          min_snr_db max_snr_db max_signal_bins h = Inr (c, h')"
      then show "well_placed n_bins (add_modulation c m)"
        using bbn by (simp add: well_placed_add_modulation gen_candidate_well_placed)
    next
      fix a b :: signal
      assume "well_placed n_bins a" "well_placed n_bins b"
        "occupied_bins b \<inter> (occupied_bins a \<union> guard_bins a) = {}"
      then show "occupied_bins a \<inter> (occupied_bins b \<union> guard_bins b) = {}"
        by (rule well_placed_clear_sym)
    qed
  qed
  have lt: "R (sigs ! i) (sigs ! j)" if "i < j" "j < length sigs" for i j
    using sw that by (simp add: sorted_wrt_iff_nth_less)
  have pos: "occupied_bins (sigs ! i) \<inter> (occupied_bins (sigs ! j) \<union> guard_bins (sigs ! j)) = {}"
    if "i < length sigs" "j < length sigs" "i \<noteq> j" for i j
  proof (cases "i < j")
    case True
    from lt[OF True that(2)] show ?thesis by (simp add: R_def)
  next
    case False
    with that(3) have "j < i" by simp
    from lt[OF this that(1)] show ?thesis by (simp add: R_def)
  qed
  have val: "occupied_bins a \<inter> (occupied_bins b \<union> guard_bins b) = {}"
    if "a \<in> set sigs" "b \<in> set sigs" "a \<noteq> b" for a b
  proof -
    from that(1,2) obtain i j where "i < length sigs" "sigs ! i = a" "j < length sigs" "sigs ! j = b"
      by (auto simp: in_set_conv_nth)
    moreover from this that(3) have "i \<noteq> j" by auto
    ultimately show ?thesis using pos[of i j] by simp
  qed
  show ?thesis unfolding sigs_def[symmetric]
  proof (intro conjI allI ballI impI)
    fix i j assume "i < length sigs \<and> j < length sigs \<and> i \<noteq> j"
    then have p: "occupied_bins (sigs ! i)
        \<inter> (occupied_bins (sigs ! j) \<union> guard_bins (sigs ! j)) = {}" using pos by blast
    then show "occupied_bins (sigs ! i) \<inter> occupied_bins (sigs ! j) = {}" by blast
    from p show "occupied_bins (sigs ! i)
        \<inter> (occupied_bins (sigs ! j) \<union> guard_bins (sigs ! j)) = {}" .
  next
    fix a b assume "a \<in> set sigs" "b \<in> set sigs" "a \<noteq> b"
    then have p: "occupied_bins a \<inter> (occupied_bins b \<union> guard_bins b) = {}" by (rule val)
    then show "occupied_bins a \<inter> occupied_bins b = {}" by blast
    from p show "occupied_bins a \<inter> (occupied_bins b \<union> guard_bins b) = {}" .
  qed
qed


theorem symmetric_disjointness_witness:
  "generate_band_plan (\<lambda>s::nat. \<lambda>i. 3 * i + s) (\<lambda>i. 0) 8 8 2 15 15 [''FM''] (Some 1) 4 10
     = Inr \<lparr>freq_span = 8, bp_n_bins = 8, bp_n_signals = 2,
            bp_signals =
              [\<lparr>sig_n_bins = 2, snr = 15, center_freq = - 2, occupied_bins = {1, 2},
                  guard_bins = {0, 3}, modulation_type = ''FM''\<rparr>,
               \<lparr>sig_n_bins = 3, snr = 15, center_freq = 3 / 2, occupied_bins = {4, 5, 6},
                  guard_bins = {3, 7}, modulation_type = ''FM''\<rparr>]\<rparr>
   \<and> {1, 2} \<inter> {4, 5, 6} = ({} :: int set)
   \<and> {1, 2} \<inter> ({4, 5, 6} \<union> {3, 7}) = ({} :: int set)
   \<and> {4, 5, 6} \<inter> ({1, 2} \<union> {0, 3}) = ({} :: int set)"
proof -
  have run: "generate_band_plan (\<lambda>s::nat. \<lambda>i. 3 * i + s) (\<lambda>i. 0) 8 8 2 15 15 [''FM'']
       (Some 1) 4 10
     = Inr \<lparr>freq_span = 8, bp_n_bins = 8, bp_n_signals = 2,
            bp_signals =
              [\<lparr>sig_n_bins = 2, snr = 15, center_freq = - 2, occupied_bins = {1, 2},
                  guard_bins = {0, 3}, modulation_type = ''FM''\<rparr>,
               \<lparr>sig_n_bins = 3, snr = 15, center_freq = 3 / 2, occupied_bins = {4, 5, 6},
                  guard_bins = {3, 7}, modulation_type = ''FM''\<rparr>]\<rparr>"
    by (simp add: run_defs insert_commute)
  from symmetric_disjointness[OF run]
  have p: "\<forall>i j. i < 2 \<and> j < 2 \<and> i \<noteq> j
      \<longrightarrow> occupied_bins ([\<lparr>sig_n_bins = 2, snr = 15, center_freq = - 2, occupied_bins = {1, 2},
                  guard_bins = {0, 3}, modulation_type = ''FM''\<rparr>,
               \<lparr>sig_n_bins = 3, snr = 15, center_freq = 3 / 2, occupied_bins = {4, 5, 6},
                  guard_bins = {3, 7}, modulation_type = ''FM''\<rparr>] ! i)
           \<inter> occupied_bins ([\<lparr>sig_n_bins = 2, snr = 15, center_freq = - 2, occupied_bins = {1, 2},
                  guard_bins = {0, 3}, modulation_type = ''FM''\<rparr>,
               \<lparr>sig_n_bins = 3, snr = 15, center_freq = 3 / 2, occupied_bins = {4, 5, 6},
                  guard_bins = {3, 7}, modulation_type = ''FM''\<rparr>] ! j) = {}
        \<and> occupied_bins ([\<lparr>sig_n_bins = 2, snr = 15, center_freq = - 2, occupied_bins = {1, 2},
                  guard_bins = {0, 3}, modulation_type = ''FM''\<rparr>,
               \<lparr>sig_n_bins = 3, snr = 15, center_freq = 3 / 2, occupied_bins = {4, 5, 6},
                  guard_bins = {3, 7}, modulation_type = ''FM''\<rparr>] ! i)
           \<inter> (occupied_bins ([\<lparr>sig_n_bins = 2, snr = 15, center_freq = - 2, occupied_bins = {1, 2},
                  guard_bins = {0, 3}, modulation_type = ''FM''\<rparr>,
               \<lparr>sig_n_bins = 3, snr = 15, center_freq = 3 / 2, occupied_bins = {4, 5, 6},
                  guard_bins = {3, 7}, modulation_type = ''FM''\<rparr>] ! j)
              \<union> guard_bins ([\<lparr>sig_n_bins = 2, snr = 15, center_freq = - 2, occupied_bins = {1, 2},
                  guard_bins = {0, 3}, modulation_type = ''FM''\<rparr>,
               \<lparr>sig_n_bins = 3, snr = 15, center_freq = 3 / 2, occupied_bins = {4, 5, 6},
                  guard_bins = {3, 7}, modulation_type = ''FM''\<rparr>] ! j)) = {}"
    by simp
  from p[rule_format, of 0 1] p[rule_format, of 1 0] run show ?thesis by simp
qed

subsection \<open>C2: every signal is well formed\<close>

text \<open>
  Claim C2: under \<open>n_bins \<ge> 1\<close>, \<open>1 \<le> max_signal_bins \<le> n_bins\<close>,
  \<open>min_snr_db \<le> max_snr_db\<close> and a non-empty \<open>signal_types\<close>, every signal of a returned
  plan has occupied bins that, sorted, are a run of \<open>sig_n_bins\<close> consecutive integers
  inside \<open>[0, n_bins)\<close>, guard bins inside \<open>[0, n_bins)\<close>, an SNR in
  \<open>[min_snr_db, max_snr_db]\<close> and a modulation type of \<open>signal_types\<close>.

  The code does not keep the occupied bins on the grid. Lines 130 and 144 recover the
  position of the drawn center from its value: \<open>list.index\<close> returns the first position
  that holds an equal value, which is the drawn position only when the grid values
  differ. With \<open>channel_bandwidth = 5e-324\<close> and \<open>n_bins = 3\<close>, binary64 gives
  \<open>bin_bandwidth = 0.0\<close> and \<open>channel_bandwidth / 2.0 = 0.0\<close>, so the four edges and the
  three centers are all \<open>0.0\<close>. The loop on these lists, with the width 2 drawn, resolves
  the drawn edge to index 0 and accepts a signal on the bins \<open>-1\<close> and 0. The exact
  arithmetic of \<open>bin_edges_of\<close> cannot underflow, so the lists are given to the loop as
  binary64 computes them.
\<close>

theorem collapsed_grid_off_grid:
  "placement_loop (attempt 3 [0, 0, 0, 0] [0, 0, 0] (set (py_range 3)) 15 15 [''FM''] 2)
       1 1 [] 0 \<lparr>tape = \<lambda>i. 1, cursor = 0\<rparr>
     = Inr ([\<lparr>sig_n_bins = 2, snr = 15, center_freq = 0, occupied_bins = {- 1, 0},
              guard_bins = {1}, modulation_type = ''FM''\<rparr>], 1,
            \<lparr>tape = \<lambda>i. 1, cursor = 4\<rparr>)
   \<and> \<not> {- 1, 0} \<subseteq> {0 ..< (3::int)}"
  by (simp add: run_defs insert_commute)

subsection \<open>C3: no failure under a valid configuration\<close>

text \<open>
  Claim C3: for \<open>n_bins \<ge> 1\<close> and \<open>1 \<le> max_signal_bins \<le> n_bins\<close> every drawn width
  has a non-empty list of valid candidates, so the center draw never fails and
  \<open>generate_band_plan\<close> raises no error.

  The code does not do this. With \<open>n_bins = 2\<close> and \<open>max_signal_bins = 2\<close> the width 2
  can be drawn (raw draw 1); \<open>valid_edges\<close> is then \<open>bin_edges[1:1]\<close>, which is empty,
  and \<open>random.choice\<close> raises IndexError. Line 126 ends the slice at
  \<open>n_bins - num_invalid_edges\<close>, as line 140 does for the \<open>n_bins\<close> centers, but there
  are \<open>n_bins + 1\<close> edges: the edge \<open>n_bins - num_invalid_edges\<close> is dropped.
\<close>

theorem even_width_no_candidate:
  "valid_candidates 2 (bin_edges_of 3 (3 / 2) 2) 2 = []
   \<and> generate_band_plan (\<lambda>s::nat. \<lambda>i. 1) (\<lambda>i. 0) 3 2 1 10 20 [''FM''] (Some 0) 2 1
       = Inl IndexError"
  by (simp add: run_defs)

subsection \<open>C4: the candidates of an even width\<close>

text \<open>
  Claim C4: for an even width with \<open>half = width_bins / 2\<close>, the valid center
  candidates are \<open>bin_edges\<close> without its first \<open>half\<close> and its last \<open>half\<close> entries, every
  removed edge being one whose span would leave the grid.

  The code removes \<open>half + 1\<close> entries at the end. With four bins of width 1 around 0
  and a signal of width 2, the edges are \<open>-2, -1, 0, 1, 2\<close>; without the first and the
  last one they are \<open>-1, 0, 1\<close>, but \<open>valid_edges\<close> is \<open>-1, 0\<close>. The edge 1 (index 3)
  is removed although its span, bins 2 and 3, lies on the grid.
\<close>

theorem even_width_edge_dropped:
  "bin_edges_of 4 1 4 = [-2, -1, 0, 1, 2]
   \<and> valid_candidates 4 (bin_edges_of 4 1 4) 2 = [-1, 0]
   \<and> butlast (tl (bin_edges_of 4 1 4)) = [-1, 0, 1]"
  by (simp add: run_defs)

subsection \<open>C5: termination and bounded attempts\<close>

text \<open>
  Claim C5: for every \<open>max_tries \<ge> 0\<close> the placement loop ends after at most
  \<open>max_tries\<close> iterations, \<open>tries\<close> being incremented once in each; with
  \<open>max_tries = 0\<close> the plan has \<open>n_signals = 0\<close> and no signal.

  \<open>placement_loop\<close> is a total function, with \<open>max_tries - tries\<close> as its measure. A
  budget of \<open>max_tries\<close> iterations is enough to reach its result, whether the loop
  returns or raises; when it returns, the final \<open>tries\<close> is at most \<open>max_tries\<close>; with
  \<open>max_tries = 0\<close> the body never runs, and the plan is empty whenever the loop is
  reached, that is for \<open>n_bins \<noteq> 0\<close> (line 90 divides by \<open>n_bins\<close> before the loop).
\<close>

theorem bounded_attempts:
  "loop_within (nat max_tries) body n_signals max_tries [] 0 g
     = Some (placement_loop body n_signals max_tries [] 0 g)
   \<and> (0 \<le> max_tries
        \<longrightarrow> placement_loop body n_signals max_tries [] 0 g = Inr (signals, tries, g')
        \<longrightarrow> 0 \<le> tries \<and> tries \<le> max_tries)
   \<and> placement_loop body n_signals 0 [] 0 g = Inr ([], 0, g)
   \<and> (n_bins \<noteq> 0
        \<longrightarrow> generate_band_plan prng os_entropy channel_bandwidth n_bins n_signals min_snr_db
              max_snr_db signal_types instance_seed max_signal_bins 0
            = Inr \<lparr>freq_span = channel_bandwidth, bp_n_bins = n_bins, bp_n_signals = 0,
                   bp_signals = []\<rparr>)"
proof (intro conjI impI)
  show "loop_within (nat max_tries) body n_signals max_tries [] 0 g
     = Some (placement_loop body n_signals max_tries [] 0 g)"
    by (rule loop_within_enough) simp
  show "0 \<le> tries" "tries \<le> max_tries"
    if "0 \<le> max_tries" "placement_loop body n_signals max_tries [] 0 g = Inr (signals, tries, g')"
    using placement_loop_tries[OF that(2)] that(1) by simp_all
  show stop: "placement_loop body n_signals 0 [] 0 g = Inr ([], 0, g)"
    by (simp add: placement_loop_stop)
  show "generate_band_plan prng os_entropy channel_bandwidth n_bins n_signals min_snr_db
              max_snr_db signal_types instance_seed max_signal_bins 0
            = Inr \<lparr>freq_span = channel_bandwidth, bp_n_bins = n_bins, bp_n_signals = 0,
                   bp_signals = []\<rparr>" if "n_bins \<noteq> 0"
    using that by (simp add: generate_band_plan_def Let_def placement_loop_stop)
qed

theorem bounded_attempts_witness:
  "placement_loop (attempt 3 (bin_edges_of 3 1 3) (bin_centers_of 3 1 3) (set (py_range 3))
       10 20 [''FM''] 1) 5 2 [] 0 \<lparr>tape = \<lambda>i. 0, cursor = 0\<rparr>
     = Inr ([\<lparr>sig_n_bins = 1, snr = 10, center_freq = -1, occupied_bins = {0},
              guard_bins = {1, 2}, modulation_type = ''FM''\<rparr>], 2,
            \<lparr>tape = \<lambda>i. 0, cursor = 7\<rparr>)
   \<and> (0::int) \<le> 2 \<and> (2::int) \<le> 2
   \<and> (3::int) \<noteq> 0
   \<and> generate_band_plan (\<lambda>s::nat. \<lambda>i. 0) (\<lambda>i. 0) 3 3 5 10 20 [''FM''] (Some 0) 1 0
       = Inr \<lparr>freq_span = 3, bp_n_bins = 3, bp_n_signals = 0, bp_signals = []\<rparr>"
proof -
  have run: "placement_loop (attempt 3 (bin_edges_of 3 1 3) (bin_centers_of 3 1 3)
       (set (py_range 3)) 10 20 [''FM''] 1) 5 2 [] 0 \<lparr>tape = \<lambda>i. 0, cursor = 0\<rparr>
     = Inr ([\<lparr>sig_n_bins = 1, snr = 10, center_freq = -1, occupied_bins = {0},
              guard_bins = {1, 2}, modulation_type = ''FM''\<rparr>], 2,
            \<lparr>tape = \<lambda>i. 0, cursor = 7\<rparr>)"
    by (simp add: run_defs insert_commute)
  have nz: "(3::int) \<noteq> 0" by simp
  have m: "(0::int) \<le> 2" by simp
  from bounded_attempts[of 2 "attempt 3 (bin_edges_of 3 1 3) (bin_centers_of 3 1 3)
       (set (py_range 3)) 10 20 [''FM''] 1" 5 "\<lparr>tape = \<lambda>i. 0, cursor = 0\<rparr>" _ 2 _ 3
       "\<lambda>s::nat. \<lambda>i. 0" "\<lambda>i. 0" 3 10 20 "[''FM'']" "Some 0" 1] run m nz
  show ?thesis by simp
qed

subsection \<open>C7: configuration errors\<close>




subsection \<open>C8: the modulation draw and the collision check\<close>

text \<open>
  Claim C8: in every iteration the whole candidate, its \<open>modulation_type\<close> included, is
  produced before the collision check, so a rejected attempt consumes the same draws
  (width, SNR, center, modulation) as an accepted one.

  In the code the modulation is drawn on line 170, after the check of lines 160 to 167
  and only when the candidate has passed it. What holds is this: every iteration that
  does not raise draws the width, the SNR and the center (three draws) before the check;
  a rejected attempt leaves the list as it is and consumes those three draws; an
  accepted attempt then draws the modulation from \<open>signal_types\<close>, a fourth draw, and
  appends the signal.
\<close>

theorem modulation_after_check:
  assumes "attempt n_bins bin_edges bin_centers valid_bins min_snr_db max_snr_db signal_types
             max_signal_bins signals g = Inr (signals', g')"
  shows "\<exists>c g3. gen_candidate n_bins bin_edges bin_centers valid_bins min_snr_db max_snr_db
                   max_signal_bins g = Inr (c, g3)
           \<and> cursor g3 = cursor g + 3
           \<and> (if overlaps (occupied_bins c) signals
               then signals' = signals \<and> g' = g3
               else cursor g' = cursor g + 4
                  \<and> (\<exists>m. choice signal_types g3 = Inr (m, g') \<and> m \<in> set signal_types
                         \<and> signals' = signals @ [add_modulation c m]))"
proof -
  from attempt_Inr[OF assms] obtain c g3 where
    gc: "gen_candidate n_bins bin_edges bin_centers valid_bins min_snr_db max_snr_db
           max_signal_bins g = Inr (c, g3)"
    and rest: "if overlaps (occupied_bins c) signals then signals' = signals \<and> g' = g3
               else \<exists>m. choice signal_types g3 = Inr (m, g')
                      \<and> signals' = signals @ [add_modulation c m]"
    by blast
  have c3: "cursor g3 = cursor g + 3" using gen_candidate_draws(2)[OF gc] .
  show ?thesis
  proof (cases "overlaps (occupied_bins c) signals")
    case True
    with gc c3 rest show ?thesis by auto
  next
    case False
    with rest obtain m where m: "choice signal_types g3 = Inr (m, g')"
      and s: "signals' = signals @ [add_modulation c m]" by auto
    have "cursor g' = cursor g + 4" using choice_Inr(3)[OF m] c3 by simp
    moreover have "m \<in> set signal_types" using choice_Inr(1)[OF m] by auto
    ultimately show ?thesis using gc c3 False m s by auto
  qed
qed

theorem modulation_after_check_witness:
  "attempt 3 (bin_edges_of 3 1 3) (bin_centers_of 3 1 3) (set (py_range 3)) 10 20 [''FM''] 1
       [] \<lparr>tape = \<lambda>i. 0, cursor = 0\<rparr>
     = Inr ([\<lparr>sig_n_bins = 1, snr = 10, center_freq = -1, occupied_bins = {0},
              guard_bins = {1, 2}, modulation_type = ''FM''\<rparr>],
            \<lparr>tape = \<lambda>i. 0, cursor = 4\<rparr>)
   \<and> (\<exists>c g3. gen_candidate 3 (bin_edges_of 3 1 3) (bin_centers_of 3 1 3) (set (py_range 3))
                   10 20 1 \<lparr>tape = \<lambda>i. 0, cursor = 0\<rparr> = Inr (c, g3)
           \<and> cursor g3 = cursor \<lparr>tape = \<lambda>i. 0, cursor = 0\<rparr> + 3
           \<and> (if overlaps (occupied_bins c) []
               then [\<lparr>sig_n_bins = 1, snr = 10, center_freq = -1, occupied_bins = {0},
                       guard_bins = {1, 2}, modulation_type = ''FM''\<rparr>] = []
                    \<and> \<lparr>tape = \<lambda>i. 0, cursor = 4\<rparr> = g3
               else cursor \<lparr>tape = \<lambda>i. 0, cursor = 4\<rparr>
                      = cursor \<lparr>tape = \<lambda>i. 0, cursor = 0\<rparr> + 4
                  \<and> (\<exists>m. choice [''FM''] g3 = Inr (m, \<lparr>tape = \<lambda>i. 0, cursor = 4\<rparr>)
                         \<and> m \<in> set [''FM'']
                         \<and> [\<lparr>sig_n_bins = 1, snr = 10, center_freq = -1,
                              occupied_bins = {0}, guard_bins = {1, 2},
                              modulation_type = ''FM''\<rparr>] = [] @ [add_modulation c m])))"
proof -
  have run: "attempt 3 (bin_edges_of 3 1 3) (bin_centers_of 3 1 3) (set (py_range 3)) 10 20
       [''FM''] 1 [] \<lparr>tape = \<lambda>i. 0, cursor = 0\<rparr>
     = Inr ([\<lparr>sig_n_bins = 1, snr = 10, center_freq = -1, occupied_bins = {0},
              guard_bins = {1, 2}, modulation_type = ''FM''\<rparr>],
            \<lparr>tape = \<lambda>i. 0, cursor = 4\<rparr>)"
    by (simp add: run_defs insert_commute)
  from modulation_after_check[OF run] run show ?thesis by (intro conjI)
qed

text \<open>
  The same candidate from the same generator state: accepted on an empty list, the
  attempt leaves the cursor at 4; rejected against a signal on bin 0, it leaves the cursor
  at 3.
\<close>

theorem rejected_attempt_draws_less:
  "attempt 3 (bin_edges_of 3 1 3) (bin_centers_of 3 1 3) (set (py_range 3)) 10 20 [''FM''] 1
       [] \<lparr>tape = \<lambda>i. 0, cursor = 0\<rparr>
     = Inr ([\<lparr>sig_n_bins = 1, snr = 10, center_freq = -1, occupied_bins = {0},
              guard_bins = {1, 2}, modulation_type = ''FM''\<rparr>],
            \<lparr>tape = \<lambda>i. 0, cursor = 4\<rparr>)
   \<and> attempt 3 (bin_edges_of 3 1 3) (bin_centers_of 3 1 3) (set (py_range 3)) 10 20 [''FM''] 1
       [\<lparr>sig_n_bins = 1, snr = 10, center_freq = -1, occupied_bins = {0},
              guard_bins = {1, 2}, modulation_type = ''FM''\<rparr>] \<lparr>tape = \<lambda>i. 0, cursor = 0\<rparr>
     = Inr ([\<lparr>sig_n_bins = 1, snr = 10, center_freq = -1, occupied_bins = {0},
              guard_bins = {1, 2}, modulation_type = ''FM''\<rparr>],
            \<lparr>tape = \<lambda>i. 0, cursor = 3\<rparr>)"
  by (simp add: run_defs insert_commute)

subsection \<open>C9: plan assembly\<close>

text \<open>
  Claim C9: the returned plan has \<open>freq_span\<close> equal to \<open>channel_bandwidth\<close>, \<open>n_bins\<close>
  equal to the input, \<open>n_signals\<close> equal to the number of accepted signals, which lies
  between 0 and the requested number, and \<open>signals\<close> lists the accepted signals in the
  order of their acceptance.

  The list of the plan is the list the loop ends with, and an iteration either leaves
  that list as it is or appends its signal at the end. The count never exceeds
  \<open>max 0 n_signals\<close>: the requested number when that is not negative.
\<close>

theorem plan_assembly:
  assumes run: "generate_band_plan prng os_entropy channel_bandwidth n_bins n_signals min_snr_db
                  max_snr_db signal_types instance_seed max_signal_bins max_tries = Inr plan"
  shows "freq_span plan = channel_bandwidth \<and> bp_n_bins plan = n_bins
       \<and> bp_n_signals plan = int (length (bp_signals plan))
       \<and> 0 \<le> bp_n_signals plan \<and> bp_n_signals plan \<le> max 0 n_signals
       \<and> (0 \<le> n_signals \<longrightarrow> bp_n_signals plan \<le> n_signals)
       \<and> (\<exists>tries g.
             placement_loop
               (attempt n_bins
                  (bin_edges_of channel_bandwidth (channel_bandwidth / of_int n_bins) n_bins)
                  (bin_centers_of channel_bandwidth (channel_bandwidth / of_int n_bins) n_bins)
                  (set (py_range n_bins)) min_snr_db max_snr_db signal_types max_signal_bins)
               n_signals max_tries [] 0 (seed prng os_entropy instance_seed)
             = Inr (bp_signals plan, tries, g))
       \<and> (\<forall>n be bc vb signals g signals' g'.
             attempt n be bc vb min_snr_db max_snr_db signal_types max_signal_bins signals g
               = Inr (signals', g')
             \<longrightarrow> signals' = signals \<or> (\<exists>s. signals' = signals @ [s]))"
proof -
  define body where "body = attempt n_bins
      (bin_edges_of channel_bandwidth (channel_bandwidth / of_int n_bins) n_bins)
      (bin_centers_of channel_bandwidth (channel_bandwidth / of_int n_bins) n_bins)
      (set (py_range n_bins)) min_snr_db max_snr_db signal_types max_signal_bins"
  from run obtain signals tries g where
    loop: "placement_loop body n_signals max_tries [] 0 (seed prng os_entropy instance_seed)
             = Inr (signals, tries, g)"
    and plan: "plan = \<lparr>freq_span = channel_bandwidth, bp_n_bins = n_bins,
                       bp_n_signals = int (length signals), bp_signals = signals\<rparr>"
    unfolding generate_band_plan_def Let_def body_def
    by (auto split: if_splits sum.splits)
  have len: "int (length signals) \<le> max 0 n_signals"
    using placement_loop_bounds(4)[OF loop[unfolded body_def]] by simp
  have app: "signals' = signals0 \<or> (\<exists>s. signals' = signals0 @ [s])"
    if "attempt n be bc vb min_snr_db max_snr_db signal_types max_signal_bins signals0 g0
          = Inr (signals', g')" for n be bc vb signals0 g0 signals' g'
    using attempt_Inr[OF that] by (auto split: if_splits)
  show ?thesis
  proof (intro conjI)
    show "\<exists>tries g. placement_loop
               (attempt n_bins
                  (bin_edges_of channel_bandwidth (channel_bandwidth / of_int n_bins) n_bins)
                  (bin_centers_of channel_bandwidth (channel_bandwidth / of_int n_bins) n_bins)
                  (set (py_range n_bins)) min_snr_db max_snr_db signal_types max_signal_bins)
               n_signals max_tries [] 0 (seed prng os_entropy instance_seed)
             = Inr (bp_signals plan, tries, g)"
      using loop plan unfolding body_def by auto
    show "\<forall>n be bc vb signals g signals' g'.
             attempt n be bc vb min_snr_db max_snr_db signal_types max_signal_bins signals g
               = Inr (signals', g')
             \<longrightarrow> signals' = signals \<or> (\<exists>s. signals' = signals @ [s])"
      using app by blast
    show "0 \<le> n_signals \<longrightarrow> bp_n_signals plan \<le> n_signals"
      using plan len by auto
  qed (use plan len in simp_all)
qed

theorem plan_assembly_witness:
  "generate_band_plan (\<lambda>s::nat. \<lambda>i. 0) (\<lambda>i. 0) 3 3 5 10 20 [''FM''] (Some 0) 1 2
     = Inr \<lparr>freq_span = 3, bp_n_bins = 3, bp_n_signals = 1,
            bp_signals = [\<lparr>sig_n_bins = 1, snr = 10, center_freq = -1, occupied_bins = {0},
                            guard_bins = {1, 2}, modulation_type = ''FM''\<rparr>]\<rparr>
   \<and> (0::int) \<le> 5
   \<and> bp_n_signals \<lparr>freq_span = 3, bp_n_bins = 3, bp_n_signals = 1,
            bp_signals = [\<lparr>sig_n_bins = 1, snr = 10, center_freq = -1, occupied_bins = {0},
                            guard_bins = {1, 2}, modulation_type = ''FM''\<rparr>]\<rparr> \<le> 5"
proof -
  have run: "generate_band_plan (\<lambda>s::nat. \<lambda>i. 0) (\<lambda>i. 0) 3 3 5 10 20 [''FM''] (Some 0) 1 2
     = Inr \<lparr>freq_span = 3, bp_n_bins = 3, bp_n_signals = 1,
            bp_signals = [\<lparr>sig_n_bins = 1, snr = 10, center_freq = -1, occupied_bins = {0},
                            guard_bins = {1, 2}, modulation_type = ''FM''\<rparr>]\<rparr>"
    by (simp add: run_defs insert_commute)
  have "(0::int) \<le> 5" by simp
  with plan_assembly[OF run] run show ?thesis by blast
qed

subsection \<open>C10: reversed SNR bounds\<close>

text \<open>
  Claim C10: with \<open>min_snr_db > max_snr_db\<close> and all other parameters valid,
  \<open>generate_band_plan\<close> does not fail and returns a plan.

  With \<open>min_snr_db = 20\<close>, \<open>max_snr_db = 10\<close>, \<open>n_bins = 2\<close> and \<open>max_signal_bins = 2\<close>
  the run raises IndexError when the width 2 is drawn: the empty \<open>valid_edges\<close> of
  line 126 again. The SNR draw itself raises nothing, and with reversed bounds its
  value lies between \<open>max_snr_db\<close> and \<open>min_snr_db\<close> in exact arithmetic (lemma
  \<open>gen_candidate_snr\<close>).
\<close>

theorem reversed_snr_run_fails:
  "generate_band_plan (\<lambda>s::nat. \<lambda>i. 1) (\<lambda>i. 0) 3 2 1 20 10 [''FM''] (Some 0) 2 1
     = Inl IndexError"
  by (simp add: run_defs)

end
